theory Spec2Isabelle
  imports Complex_Main "HOL-Library.Word"
begin

text \<open>
  The item server: an HTTP handler for \<open>/items\<close> written twice, over an in-memory array
  and over an SQLite table. Both handlers are embedded as functions from a store and a
  request with its whole body to a response and the next store. The in-memory \<open>PUT\<close>,
  which reads the store before the body is there and writes it after, is also given in
  its two parts.
\<close>

section \<open>JavaScript values used by the item server\<close>

text \<open>
  A JavaScript string is a sequence of 16-bit code units; \<open>length\<close> counts code units.
  The ASCII literals of the source are written as Isabelle strings and embedded by \<open>u\<close>.
\<close>

type_synonym code_unit = "16 word"
type_synonym jsstring = "code_unit list"

definition u :: "string \<Rightarrow> jsstring" where
  "u s = map of_char s"

text \<open>
  The result of \<open>JSON.parse\<close>, and the argument of \<open>JSON.stringify\<close>. An object is the
  list of its own properties; \<open>undefined\<close> is \<open>None\<close> of \<open>json option\<close>.
\<close>

datatype json =
    JNull
  | JBool bool
  | JNum rat
  | JStr jsstring
  | JArr "json list"
  | JObj "(jsstring \<times> json) list"

text \<open>Truthiness of a value (\<open>!x\<close> is its negation); \<open>undefined\<close> is falsy.\<close>

fun truthy :: "json \<Rightarrow> bool" where
  "truthy JNull = False"
| "truthy (JBool b) = b"
| "truthy (JNum n) = (n \<noteq> 0)"
| "truthy (JStr s) = (s \<noteq> [])"
| "truthy (JArr xs) = True"
| "truthy (JObj kvs) = True"

definition truthy_opt :: "json option \<Rightarrow> bool" where
  "truthy_opt x = (case x of None \<Rightarrow> False | Some v \<Rightarrow> truthy v)"

text \<open>
  Property access \<open>data.name\<close>, \<open>data.description\<close> on a truthy value: an own property
  of an object, \<open>undefined\<close> on everything else (no prototype has these two names).
\<close>

fun property :: "json \<Rightarrow> jsstring \<Rightarrow> json option" where
  "property (JObj kvs) k = map_of kvs k"
| "property v k = None"

definition typeof_string :: "json option \<Rightarrow> bool" where
  "typeof_string x = (case x of Some (JStr s) \<Rightarrow> True | _ \<Rightarrow> False)"

text \<open>
  The code units of a value already known to be a string (the handlers read them only
  after validation has passed, see \<open>valid_fields\<close>).
\<close>

definition str_val :: "json option \<Rightarrow> jsstring" where
  "str_val x = (case x of Some (JStr s) \<Rightarrow> s | _ \<Rightarrow> [])"

text \<open>
  \<open>String.prototype.trim\<close> removes white space and line terminators from both ends:
  TAB, LF, VT, FF, CR, SP, NBSP, U+1680, U+2000 to U+200A, U+2028, U+2029, U+202F,
  U+205F, U+3000 and U+FEFF.
\<close>

definition isStrWhiteSpace :: "code_unit \<Rightarrow> bool" where
  "isStrWhiteSpace c =
     (c \<in> set [0x9, 0xA, 0xB, 0xC, 0xD, 0x20, 0xA0, 0x1680,
                0x2000, 0x2001, 0x2002, 0x2003, 0x2004, 0x2005, 0x2006, 0x2007,
                0x2008, 0x2009, 0x200A, 0x2028, 0x2029, 0x202F, 0x205F, 0x3000, 0xFEFF])"

definition trim :: "jsstring \<Rightarrow> jsstring" where
  "trim s = rev (dropWhile isStrWhiteSpace (rev (dropWhile isStrWhiteSpace s)))"

section \<open>Input validation (the same text in both servers)\<close>

record validation =
  isValid :: bool
  errors :: "jsstring list"

definition validateItemInput :: "json option \<Rightarrow> validation" where
  "validateItemInput data =
     (case data of
        None \<Rightarrow> \<lparr>isValid = False, errors = [u ''Request body is required'']\<rparr>
      | Some d \<Rightarrow>
          if \<not> truthy d then \<lparr>isValid = False, errors = [u ''Request body is required'']\<rparr>
          else
            let nm = property d (u ''name'');
                ds = property d (u ''description'');
                e1 = (if \<not> truthy_opt nm \<or> \<not> typeof_string nm \<or> length (trim (str_val nm)) = 0
                      then [u ''Name is required and must be a non-empty string''] else []);
                e2 = (if \<not> truthy_opt ds \<or> \<not> typeof_string ds \<or> length (trim (str_val ds)) = 0
                      then [u ''Description is required and must be a non-empty string''] else []);
                e3 = (if truthy_opt nm \<and> typeof_string nm \<and> length (str_val nm) > 100
                      then [u ''Name must be 100 characters or less''] else []);
                e4 = (if truthy_opt ds \<and> typeof_string ds \<and> length (str_val ds) > 500
                      then [u ''Description must be 500 characters or less''] else []);
                es = e1 @ e2 @ e3 @ e4
            in \<lparr>isValid = (length es = 0), errors = es\<rparr>)"

section \<open>The id segment of a path\<close>

text \<open>\<open>path.split("/")\<close>: the pieces between the separators, at least one piece.\<close>

fun split_on :: "code_unit \<Rightarrow> jsstring \<Rightarrow> jsstring list" where
  "split_on c [] = [[]]"
| "split_on c (x # xs) =
     (if x = c then [] # split_on c xs
      else (case split_on c xs of
              [] \<Rightarrow> [[x]]
            | w # ws \<Rightarrow> (x # w) # ws))"

text \<open>Indexing an array: \<open>undefined\<close> out of range.\<close>

definition index :: "'a list \<Rightarrow> nat \<Rightarrow> 'a option" where
  "index xs i = (if i < length xs then Some (xs ! i) else None)"

text \<open>
  \<open>parseInt\<close> with no radix: leading white space is skipped, one sign is read, the
  prefix \<open>0x\<close> or \<open>0X\<close> selects radix 16, and the longest run of digits of the radix is
  read; whatever follows is ignored. The result is \<open>NaN\<close> (here \<open>None\<close>) exactly when that
  run is empty. Numbers are mathematical integers here (exact in the source below 2^53).
\<close>

definition digit_val :: "code_unit \<Rightarrow> nat option" where
  "digit_val c =
     (if 0x30 \<le> c \<and> c \<le> 0x39 then Some (unat c - 0x30)
      else if 0x61 \<le> c \<and> c \<le> 0x7A then Some (unat c - 0x61 + 10)
      else if 0x41 \<le> c \<and> c \<le> 0x5A then Some (unat c - 0x41 + 10)
      else None)"

definition is_digit :: "nat \<Rightarrow> code_unit \<Rightarrow> bool" where
  "is_digit R c = (case digit_val c of None \<Rightarrow> False | Some d \<Rightarrow> d < R)"

definition digits_value :: "nat \<Rightarrow> jsstring \<Rightarrow> nat" where
  "digits_value R Z = foldl (\<lambda>acc c. acc * R + (case digit_val c of None \<Rightarrow> 0 | Some d \<Rightarrow> d)) 0 Z"

definition parseInt :: "jsstring \<Rightarrow> int option" where
  "parseInt inputString =
     (let S = dropWhile isStrWhiteSpace inputString;
          sign = (if S \<noteq> [] \<and> hd S = 0x2D then - 1 else (1::int));
          S1 = (if S \<noteq> [] \<and> (hd S = 0x2B \<or> hd S = 0x2D) then tl S else S);
          hex = (length S1 \<ge> 2 \<and> (take 2 S1 = u ''0x'' \<or> take 2 S1 = u ''0X''));
          R = (if hex then 16 else 10);
          S2 = (if hex then drop 2 S1 else S1);
          Z = takeWhile (is_digit R) S2
      in if Z = [] then None else Some (sign * int (digits_value R Z)))"

text \<open>\<open>parseInt(path.split("/")[2])\<close>; \<open>parseInt(undefined)\<close> reads the text "undefined".\<close>

definition path_id :: "jsstring \<Rightarrow> int option" where
  "path_id p =
     parseInt (case index (split_on 0x2F p) 2 of None \<Rightarrow> u ''undefined'' | Some seg \<Rightarrow> seg)"

definition startsWith :: "jsstring \<Rightarrow> jsstring \<Rightarrow> bool" where
  "startsWith s pre = (take (length pre) s = pre)"

section \<open>Requests and responses\<close>

text \<open>
  A request as the handler reads it: the method, the \<open>pathname\<close> of the parsed URL
  (\<open>null\<close> is \<open>None\<close>) and the whole body text. Requests are handled one after the other,
  each body read to its end.
\<close>

record request =
  "method" :: jsstring
  path :: "jsstring option"
  body :: jsstring

text \<open>A response: the status, the headers set, and the value given to \<open>JSON.stringify\<close>
  (\<open>None\<close> when \<open>res.end()\<close> writes no body).\<close>

record response =
  status :: nat
  headers :: "(jsstring \<times> jsstring) list"
  payload :: "json option"

definition cors :: "(jsstring \<times> jsstring) list" where
  "cors = [(u ''Access-Control-Allow-Origin'', u ''*''),
           (u ''Access-Control-Allow-Methods'', u ''GET, POST, PUT, DELETE''),
           (u ''Access-Control-Allow-Headers'', u ''Content-Type'')]"

definition options_response :: response where
  "options_response = \<lparr>status = 200, headers = cors, payload = None\<rparr>"

definition json_response :: "nat \<Rightarrow> json \<Rightarrow> response" where
  "json_response st v =
     \<lparr>status = st, headers = cors @ [(u ''Content-Type'', u ''application/json'')],
      payload = Some v\<rparr>"

definition error_json :: "string \<Rightarrow> json" where
  "error_json msg = JObj [(u ''error'', JStr (u msg))]"

definition validation_failed :: "jsstring list \<Rightarrow> json" where
  "validation_failed es =
     JObj [(u ''error'', JStr (u ''Validation failed'')), (u ''details'', JArr (map JStr es))]"

text \<open>
  \<open>body ? JSON.parse(body) : undefined\<close>. \<open>JSON.parse\<close> is the library's; it is a
  parameter \<open>jp\<close> of the handlers, \<open>None\<close> where it throws a \<open>SyntaxError\<close>. The outer
  \<open>None\<close> of the result is that exception, \<open>Some None\<close> is \<open>undefined\<close>.
\<close>

type_synonym json_parse = "jsstring \<Rightarrow> json option"

definition read_data :: "json_parse \<Rightarrow> jsstring \<Rightarrow> json option option" where
  "read_data jp b = (if b \<noteq> [] then map_option Some (jp b) else Some None)"

section \<open>The in-memory server\<close>

record item =
  item_id :: int
  name :: jsstring
  description :: jsstring

definition item_json :: "item \<Rightarrow> json" where
  "item_json it =
     JObj [(u ''id'', JNum (of_int (item_id it))), (u ''name'', JStr (name it)),
           (u ''description'', JStr (description it))]"

record store =
  items :: "item list"
  nextId :: int

definition init_store :: store where
  "init_store = \<lparr>items = [], nextId = 1\<rparr>"

definition resetMyServerData :: "store \<Rightarrow> store" where
  "resetMyServerData s = s\<lparr>items := [], nextId := 1\<rparr>"

text \<open>\<open>Array.prototype.findIndex\<close>: the first index whose element passes, \<open>None\<close> for -1.\<close>

fun findIndex :: "('a \<Rightarrow> bool) \<Rightarrow> 'a list \<Rightarrow> nat option" where
  "findIndex P [] = None"
| "findIndex P (x # xs) =
     (if P x then Some 0 else map_option Suc (findIndex P xs))"

text \<open>
  The item built from a validated body: \<open>data.name.trim()\<close> and
  \<open>data.description.trim()\<close>. Validation has passed by then, so \<open>data\<close> is a value
  with both fields strings.
\<close>

definition trimmed_item :: "int \<Rightarrow> json option \<Rightarrow> item" where
  "trimmed_item i data =
     (case data of
        None \<Rightarrow> \<lparr>item_id = i, name = [], description = []\<rparr>
      | Some d \<Rightarrow> \<lparr>item_id = i, name = trim (str_val (property d (u ''name''))),
                   description = trim (str_val (property d (u ''description'')))\<rparr>)"

definition handler :: "json_parse \<Rightarrow> store \<Rightarrow> request \<Rightarrow> response \<times> store" where
  "handler jp s req =
     (if method req = u ''OPTIONS'' then (options_response, s)
      else case path req of
        None \<Rightarrow> (json_response 404 (error_json ''Not found''), s)
      | Some p \<Rightarrow>
        if method req = u ''GET'' \<and> p = u ''/items''
        then (json_response 200 (JArr (map item_json (items s))), s)
        else if method req = u ''GET'' \<and> startsWith p (u ''/items/'')
        then (case path_id p of
                None \<Rightarrow> (json_response 400 (error_json ''Invalid item ID''), s)
              | Some i \<Rightarrow>
                  (case find (\<lambda>it. item_id it = i) (items s) of
                     Some it \<Rightarrow> (json_response 200 (item_json it), s)
                   | None \<Rightarrow> (json_response 404 (error_json ''Item not found''), s)))
        else if method req = u ''POST'' \<and> p = u ''/items''
        then (case read_data jp (body req) of
                None \<Rightarrow> (json_response 400 (error_json ''Invalid JSON''), s)
              | Some data \<Rightarrow>
                  let v = validateItemInput data in
                  if \<not> isValid v
                  then (json_response 400 (validation_failed (errors v)), s)
                  else
                    let newItem = trimmed_item (nextId s) data
                    in (json_response 201 (item_json newItem),
                        s\<lparr>items := items s @ [newItem], nextId := nextId s + 1\<rparr>))
        else if method req = u ''PUT'' \<and> startsWith p (u ''/items/'')
        then (case path_id p of
                None \<Rightarrow> (json_response 400 (error_json ''Invalid item ID''), s)
              | Some i \<Rightarrow>
                  (case findIndex (\<lambda>it. item_id it = i) (items s) of
                     None \<Rightarrow> (json_response 404 (error_json ''Item not found''), s)
                   | Some itemIndex \<Rightarrow>
                       (case read_data jp (body req) of
                          None \<Rightarrow> (json_response 400 (error_json ''Invalid JSON''), s)
                        | Some data \<Rightarrow>
                            let v = validateItemInput data in
                            if \<not> isValid v
                            then (json_response 400 (validation_failed (errors v)), s)
                            else
                              let updated = trimmed_item i data
                              in (json_response 200 (item_json updated),
                                  s\<lparr>items := (items s)[itemIndex := updated]\<rparr>))))
        else if method req = u ''DELETE'' \<and> startsWith p (u ''/items/'')
        then (case path_id p of
                None \<Rightarrow> (json_response 400 (error_json ''Invalid item ID''), s)
              | Some i \<Rightarrow>
                  (case findIndex (\<lambda>it. item_id it = i) (items s) of
                     None \<Rightarrow> (json_response 404 (error_json ''Item not found''), s)
                   | Some itemIndex \<Rightarrow>
                       let deletedItem = items s ! itemIndex
                       in (json_response 200
                             (JObj [(u ''message'', JStr (u ''Item deleted'')),
                                    (u ''item'', item_json deletedItem)]),
                           s\<lparr>items := take itemIndex (items s) @ drop (Suc itemIndex) (items s)\<rparr>)))
        else (json_response 404 (error_json ''Not found''), s))"

text \<open>
  \<open>handler\<close> takes a request together with its whole body: nothing else is served
  between the arrival of the request and the end of its body. The in-memory \<open>PUT\<close>
  reads the store at two moments. When the request arrives it parses the id and looks
  the index up (\<open>put_lookup\<close>); when the body has ended it parses and validates the
  body and writes \<open>items[itemIndex]\<close> with the id and the index found earlier
  (\<open>put_body_end\<close>), in whatever store is there by then. Writing at the length of the
  array appends; writing beyond it leaves holes in the array, which a list of items
  cannot hold: that outcome is \<open>SparseArray\<close>.
\<close>

datatype array_error = SparseArray

definition put_lookup :: "store \<Rightarrow> jsstring \<Rightarrow> response + (int \<times> nat)" where
  "put_lookup s p =
     (case path_id p of
        None \<Rightarrow> Inl (json_response 400 (error_json ''Invalid item ID''))
      | Some i \<Rightarrow>
          (case findIndex (\<lambda>it. item_id it = i) (items s) of
             None \<Rightarrow> Inl (json_response 404 (error_json ''Item not found''))
           | Some itemIndex \<Rightarrow> Inr (i, itemIndex)))"

definition put_body_end ::
    "json_parse \<Rightarrow> store \<Rightarrow> int \<Rightarrow> nat \<Rightarrow> jsstring \<Rightarrow> array_error + (response \<times> store)" where
  "put_body_end jp s i itemIndex b =
     (case read_data jp b of
        None \<Rightarrow> Inr (json_response 400 (error_json ''Invalid JSON''), s)
      | Some data \<Rightarrow>
          let v = validateItemInput data in
          if \<not> isValid v
          then Inr (json_response 400 (validation_failed (errors v)), s)
          else
            let updated = trimmed_item i data
            in if itemIndex < length (items s)
               then Inr (json_response 200 (item_json updated),
                         s\<lparr>items := (items s)[itemIndex := updated]\<rparr>)
               else if itemIndex = length (items s)
               then Inr (json_response 200 (item_json updated),
                         s\<lparr>items := items s @ [updated]\<rparr>)
               else Inl SparseArray)"

text \<open>Requests handled one after the other, the responses in order.\<close>

fun run :: "json_parse \<Rightarrow> store \<Rightarrow> request list \<Rightarrow> response list \<times> store" where
  "run jp s [] = ([], s)"
| "run jp s (r # rs) =
     (let (resp, s') = handler jp s r;
          (resps, s'') = run jp s' rs
      in (resp # resps, s''))"

section \<open>The SQLite server\<close>

text \<open>
  The database the second server keeps its items in: the rows of table \<open>items\<close>
  (\<open>id INTEGER PRIMARY KEY AUTOINCREMENT, name TEXT NOT NULL, description TEXT NOT NULL\<close>),
  the entry of \<open>sqlite_sequence\<close> for that table (\<open>None\<close> while it has none), and whether
  the database is failing: a failing database throws on every statement, which is the
  only way the \<open>catch\<close> branches for database errors are reached.
\<close>

record db =
  rows :: "item list"
  seq :: "int option"
  failing :: bool

text \<open>
  A text column holds UTF-8. A string bound to a statement is encoded on the way in: a
  surrogate pair is one code point and is read back as the same pair, and a surrogate
  that is not part of a pair is written as U+FFFD, which is what is read back.
\<close>

definition is_high_surrogate :: "code_unit \<Rightarrow> bool" where
  "is_high_surrogate c = (0xD800 \<le> c \<and> c \<le> 0xDBFF)"

definition is_low_surrogate :: "code_unit \<Rightarrow> bool" where
  "is_low_surrogate c = (0xDC00 \<le> c \<and> c \<le> 0xDFFF)"

fun sqlite_text :: "jsstring \<Rightarrow> jsstring" where
  "sqlite_text [] = []"
| "sqlite_text [c] = (if is_high_surrogate c \<or> is_low_surrogate c then [0xFFFD] else [c])"
| "sqlite_text (c # c' # cs) =
     (if is_high_surrogate c \<and> is_low_surrogate c' then c # c' # sqlite_text cs
      else if is_high_surrogate c \<or> is_low_surrogate c then 0xFFFD # sqlite_text (c' # cs)
      else c # sqlite_text (c' # cs))"

definition init_db :: db where
  "init_db = \<lparr>rows = [], seq = None, failing = False\<rparr>"

text \<open>\<open>SELECT * FROM items ORDER BY id\<close>\<close>

definition select_all :: "db \<Rightarrow> item list" where
  "select_all d = sort_key item_id (rows d)"

text \<open>\<open>SELECT * FROM items WHERE id = ?\<close>, \<open>.get\<close>: the first row or \<open>undefined\<close>.\<close>

definition select_by_id :: "db \<Rightarrow> int \<Rightarrow> item option" where
  "select_by_id d i = find (\<lambda>r. item_id r = i) (rows d)"

text \<open>
  \<open>INSERT INTO items (name, description) VALUES (?, ?)\<close>: with \<open>AUTOINCREMENT\<close> the
  new id is one more than the largest of the ids in the table and the recorded sequence
  value, which is then recorded. The result is \<open>lastInsertRowid\<close> and the database.
\<close>

definition insert_item :: "db \<Rightarrow> jsstring \<Rightarrow> jsstring \<Rightarrow> int \<times> db" where
  "insert_item d n ds =
     (let largest = fold max (map item_id (rows d)) (case seq d of None \<Rightarrow> 0 | Some q \<Rightarrow> q);
          i = largest + 1
      in (i, d\<lparr>rows := rows d @ [\<lparr>item_id = i, name = sqlite_text n,
                                    description = sqlite_text ds\<rparr>],
               seq := Some i\<rparr>))"

text \<open>\<open>UPDATE items SET name = ?, description = ? WHERE id = ?\<close>\<close>

definition update_item :: "db \<Rightarrow> jsstring \<Rightarrow> jsstring \<Rightarrow> int \<Rightarrow> db" where
  "update_item d n ds i =
     d\<lparr>rows := map (\<lambda>r. if item_id r = i
                         then r\<lparr>name := sqlite_text n, description := sqlite_text ds\<rparr>
                         else r) (rows d)\<rparr>"

text \<open>\<open>DELETE FROM items WHERE id = ?\<close>\<close>

definition delete_item :: "db \<Rightarrow> int \<Rightarrow> db" where
  "delete_item d i = d\<lparr>rows := filter (\<lambda>r. item_id r \<noteq> i) (rows d)\<rparr>"

text \<open>
  \<open>DELETE FROM items\<close>, then \<open>DELETE FROM sqlite_sequence WHERE name = 'items'\<close>; an error
  is caught and logged, the data staying as it was.
\<close>

definition resetMyServerData_sql :: "db \<Rightarrow> db" where
  "resetMyServerData_sql d = (if failing d then d else d\<lparr>rows := [], seq := None\<rparr>)"

definition internal_error :: response where
  "internal_error = json_response 500 (error_json ''Internal server error'')"

definition handler_sql :: "json_parse \<Rightarrow> db \<Rightarrow> request \<Rightarrow> response \<times> db" where
  "handler_sql jp d req =
     (if method req = u ''OPTIONS'' then (options_response, d)
      else case path req of
        None \<Rightarrow> (json_response 404 (error_json ''Not found''), d)
      | Some p \<Rightarrow>
        if method req = u ''GET'' \<and> p = u ''/items''
        then (if failing d then (internal_error, d)
              else (json_response 200 (JArr (map item_json (select_all d))), d))
        else if method req = u ''GET'' \<and> startsWith p (u ''/items/'')
        then (case path_id p of
                None \<Rightarrow> (json_response 400 (error_json ''Invalid item ID''), d)
              | Some i \<Rightarrow>
                  if failing d then (internal_error, d)
                  else (case select_by_id d i of
                          Some it \<Rightarrow> (json_response 200 (item_json it), d)
                        | None \<Rightarrow> (json_response 404 (error_json ''Item not found''), d)))
        else if method req = u ''POST'' \<and> p = u ''/items''
        then (case read_data jp (body req) of
                None \<Rightarrow> (json_response 400 (error_json ''Invalid JSON''), d)
              | Some data \<Rightarrow>
                  let v = validateItemInput data in
                  if \<not> isValid v
                  then (json_response 400 (validation_failed (errors v)), d)
                  else if failing d then (internal_error, d)
                  else
                    let t = trimmed_item 0 data;
                        (rowid, d') = insert_item d (name t) (description t);
                        newItem = trimmed_item rowid data
                    in (json_response 201 (item_json newItem), d'))
        else if method req = u ''PUT'' \<and> startsWith p (u ''/items/'')
        then (case path_id p of
                None \<Rightarrow> (json_response 400 (error_json ''Invalid item ID''), d)
              | Some i \<Rightarrow>
                  if failing d then (internal_error, d)
                  else (case select_by_id d i of
                     None \<Rightarrow> (json_response 404 (error_json ''Item not found''), d)
                   | Some existingItem \<Rightarrow>
                       (case read_data jp (body req) of
                          None \<Rightarrow> (json_response 400 (error_json ''Invalid JSON''), d)
                        | Some data \<Rightarrow>
                            let v = validateItemInput data in
                            if \<not> isValid v
                            then (json_response 400 (validation_failed (errors v)), d)
                            else
                              let updatedItem = trimmed_item i data
                              in (json_response 200 (item_json updatedItem),
                                  update_item d (name updatedItem) (description updatedItem) i))))
        else if method req = u ''DELETE'' \<and> startsWith p (u ''/items/'')
        then (case path_id p of
                None \<Rightarrow> (json_response 400 (error_json ''Invalid item ID''), d)
              | Some i \<Rightarrow>
                  if failing d then (internal_error, d)
                  else (case select_by_id d i of
                     Some it \<Rightarrow>
                       (json_response 200
                          (JObj [(u ''message'', JStr (u ''Item deleted'')),
                                 (u ''item'', item_json it)]),
                        delete_item d i)
                   | None \<Rightarrow> (json_response 404 (error_json ''Item not found''), d)))
        else (json_response 404 (error_json ''Not found''), d))"

fun run_sql :: "json_parse \<Rightarrow> db \<Rightarrow> request list \<Rightarrow> response list \<times> db" where
  "run_sql jp d [] = ([], d)"
| "run_sql jp d (r # rs) =
     (let (resp, d') = handler_sql jp d r;
          (resps, d'') = run_sql jp d' rs
      in (resp # resps, d''))"

section \<open>Notions used to state the properties\<close>


text \<open>The \<open>details\<close> array of a response body, empty when it has none.\<close>

definition details :: "response \<Rightarrow> json list" where
  "details r =
     (case payload r of
        None \<Rightarrow> []
      | Some v \<Rightarrow> (case property v (u ''details'') of Some (JArr xs) \<Rightarrow> xs | _ \<Rightarrow> []))"


text \<open>The id in the body of a 201 response, \<open>None\<close> for every other response.\<close>

definition created_id :: "response \<Rightarrow> json option" where
  "created_id r =
     (if status r = 201
      then (case payload r of None \<Rightarrow> None | Some v \<Rightarrow> property v (u ''id''))
      else None)"

text \<open>
  The invariant of the in-memory store: \<open>nextId\<close> is at least 1 and the ids in the
  array are strictly increasing, all at least 1 and below \<open>nextId\<close>.
\<close>

definition store_inv :: "store \<Rightarrow> bool" where
  "store_inv s =
     (1 \<le> nextId s \<and> sorted_wrt (<) (map item_id (items s)) \<and>
      list_all (\<lambda>i. 1 \<le> i \<and> i < nextId s) (map item_id (items s)))"

text \<open>
  The database holds what the in-memory store holds: the same rows with the same text in
  the same order, a sequence value one below \<open>nextId\<close>, and no failure.
\<close>

definition same_data :: "store \<Rightarrow> db \<Rightarrow> bool" where
  "same_data s d =
     (rows d = items s \<and> \<not> failing d \<and>
      (case seq d of None \<Rightarrow> 0 | Some q \<Rightarrow> q) = nextId s - 1)"



text \<open>Every stored id is below \<open>nextId\<close>.\<close>

definition ids_below :: "store \<Rightarrow> bool" where
  "ids_below s = list_all (\<lambda>i. i < nextId s) (map item_id (items s))"



text \<open>
  The id segment of a path under "/items/": the text up to the next "/".
\<close>

definition id_segment :: "jsstring \<Rightarrow> jsstring" where
  "id_segment p = takeWhile (\<lambda>c. c \<noteq> 0x2F) (drop (length (u ''/items/'')) p)"

text \<open>
  A segment with no number to read: after leading white space and one optional sign,
  what is left either has the prefix "0x" or "0X" with no hexadecimal digit right after
  it, or has no such prefix and does not start with a decimal digit (it may be empty).
\<close>

definition dec_digit :: "code_unit \<Rightarrow> bool" where
  "dec_digit c = (0x30 \<le> c \<and> c \<le> 0x39)"

definition hex_digit :: "code_unit \<Rightarrow> bool" where
  "hex_digit c = (dec_digit c \<or> (0x61 \<le> c \<and> c \<le> 0x66) \<or> (0x41 \<le> c \<and> c \<le> 0x46))"

definition strip_sign :: "jsstring \<Rightarrow> jsstring" where
  "strip_sign r = (case r of [] \<Rightarrow> [] | c # cs \<Rightarrow> if c = 0x2B \<or> c = 0x2D then cs else c # cs)"

definition no_number :: "jsstring \<Rightarrow> bool" where
  "no_number seg =
     (let r = strip_sign (dropWhile isStrWhiteSpace seg)
      in if take 2 r = u ''0x'' \<or> take 2 r = u ''0X''
         then (case drop 2 r of [] \<Rightarrow> True | c # cs \<Rightarrow> \<not> hex_digit c)
         else (case r of [] \<Rightarrow> True | c # cs \<Rightarrow> \<not> dec_digit c))"

text \<open>The requests that no route takes: they are answered by the default 404.\<close>

definition unrouted :: "request \<Rightarrow> bool" where
  "unrouted req =
     (method req \<noteq> u ''OPTIONS'' \<and>
      (case path req of
         None \<Rightarrow> True
       | Some p \<Rightarrow>
           \<not> (method req = u ''GET'' \<and> p = u ''/items'') \<and>
           \<not> (method req = u ''GET'' \<and> startsWith p (u ''/items/'')) \<and>
           \<not> (method req = u ''POST'' \<and> p = u ''/items'') \<and>
           \<not> (method req = u ''PUT'' \<and> startsWith p (u ''/items/'')) \<and>
           \<not> (method req = u ''DELETE'' \<and> startsWith p (u ''/items/''))))"

section \<open>Facts about strings and the library functions\<close>

lemma of_char_nat_less: "(of_char c :: nat) < 256"
proof -
  have "(of_char c :: nat) mod 256 < 256" by (rule mod_less_divisor) simp
  then show ?thesis by simp
qed

lemma unat_of_char: "unat (of_char c :: 16 word) = of_char c"
proof -
  have "(of_char c :: 16 word) = of_nat (of_char c)" by (simp add: of_nat_of_char)
  moreover have "(of_char c :: nat) mod 65536 = of_char c"
    by (rule mod_less) (rule less_trans[OF of_char_nat_less], simp)
  ultimately show ?thesis
    by (simp add: unat_of_nat)
qed

lemma of_char_word_inj: "(of_char a :: 16 word) = of_char b \<longleftrightarrow> a = b"
proof
  assume "(of_char a :: 16 word) = of_char b"
  then have "unat (of_char a :: 16 word) = unat (of_char b :: 16 word)" by simp
  then have "(of_char a :: nat) = of_char b" by (simp only: unat_of_char)
  then show "a = b" by simp
qed simp

lemma u_eq_iff [simp]: "u a = u b \<longleftrightarrow> a = b"
  unfolding u_def by (rule inj_map_eq_map) (simp add: inj_on_def of_char_word_inj)

lemma u_Nil [simp]: "u [] = []"
  by (simp add: u_def)
lemma length_u [simp]: "length (u a) = length a"
  by (simp add: u_def)

lemma startsWith_items_neq: "startsWith p (u ''/items/'') \<Longrightarrow> p \<noteq> u ''/items''"
proof
  assume a: "startsWith p (u ''/items/'')" and b: "p = u ''/items''"
  from a have "take (length (u ''/items/'')) p = u ''/items/''" by (simp only: startsWith_def)
  then have "length (take (length (u ''/items/'')) p) = length (u ''/items/'')" by (rule arg_cong)
  with b show False by simp
qed

lemma trim_Nil [simp]: "trim [] = []"
  by (simp add: trim_def)




lemma findIndex_None_iff: "findIndex P xs = None \<longleftrightarrow> find P xs = None"
  by (induction xs) auto

lemma findIndex_Some_find: "findIndex P xs = Some k \<Longrightarrow> find P xs = Some (xs ! k) \<and> k < length xs"
  by (induction xs arbitrary: k) (auto split: if_splits)

section \<open>The routes of both handlers\<close>

lemma handler_get_id:
  assumes "method req = u ''GET''" "path req = Some p" "startsWith p (u ''/items/'')"
  shows "handler jp s req =
     (case path_id p of
        None \<Rightarrow> (json_response 400 (error_json ''Invalid item ID''), s)
      | Some i \<Rightarrow>
          (case find (\<lambda>it. item_id it = i) (items s) of
             Some it \<Rightarrow> (json_response 200 (item_json it), s)
           | None \<Rightarrow> (json_response 404 (error_json ''Item not found''), s)))"
  using assms startsWith_items_neq[OF assms(3)] by (simp add: handler_def)

lemma handler_get_all:
  assumes "method req = u ''GET''" "path req = Some (u ''/items'')"
  shows "handler jp s req = (json_response 200 (JArr (map item_json (items s))), s)"
  using assms by (simp add: handler_def)

lemma handler_post:
  assumes "method req = u ''POST''" "path req = Some (u ''/items'')"
  shows "handler jp s req =
     (case read_data jp (body req) of
        None \<Rightarrow> (json_response 400 (error_json ''Invalid JSON''), s)
      | Some data \<Rightarrow>
          if \<not> isValid (validateItemInput data)
          then (json_response 400 (validation_failed (errors (validateItemInput data))), s)
          else (json_response 201 (item_json (trimmed_item (nextId s) data)),
                s\<lparr>items := items s @ [trimmed_item (nextId s) data], nextId := nextId s + 1\<rparr>))"
  using assms by (simp add: handler_def Let_def cong: option.case_cong if_cong)

lemma handler_put:
  assumes "method req = u ''PUT''" "path req = Some p" "startsWith p (u ''/items/'')"
  shows "handler jp s req =
     (case path_id p of
        None \<Rightarrow> (json_response 400 (error_json ''Invalid item ID''), s)
      | Some i \<Rightarrow>
          (case findIndex (\<lambda>it. item_id it = i) (items s) of
             None \<Rightarrow> (json_response 404 (error_json ''Item not found''), s)
           | Some itemIndex \<Rightarrow>
               (case read_data jp (body req) of
                  None \<Rightarrow> (json_response 400 (error_json ''Invalid JSON''), s)
                | Some data \<Rightarrow>
                    if \<not> isValid (validateItemInput data)
                    then (json_response 400 (validation_failed (errors (validateItemInput data))), s)
                    else (json_response 200 (item_json (trimmed_item i data)),
                          s\<lparr>items := (items s)[itemIndex := trimmed_item i data]\<rparr>))))"
  using assms by (simp add: handler_def Let_def cong: option.case_cong if_cong)

lemma handler_delete:
  assumes "method req = u ''DELETE''" "path req = Some p" "startsWith p (u ''/items/'')"
  shows "handler jp s req =
     (case path_id p of
        None \<Rightarrow> (json_response 400 (error_json ''Invalid item ID''), s)
      | Some i \<Rightarrow>
          (case findIndex (\<lambda>it. item_id it = i) (items s) of
             None \<Rightarrow> (json_response 404 (error_json ''Item not found''), s)
           | Some itemIndex \<Rightarrow>
               (json_response 200
                  (JObj [(u ''message'', JStr (u ''Item deleted'')),
                         (u ''item'', item_json (items s ! itemIndex))]),
                s\<lparr>items := take itemIndex (items s) @ drop (Suc itemIndex) (items s)\<rparr>)))"
  using assms by (simp add: handler_def Let_def cong: option.case_cong if_cong)

lemma sql_get_id:
  assumes "method req = u ''GET''" "path req = Some p" "startsWith p (u ''/items/'')"
  shows "handler_sql jp d req =
     (case path_id p of
        None \<Rightarrow> (json_response 400 (error_json ''Invalid item ID''), d)
      | Some i \<Rightarrow>
          if failing d then (internal_error, d)
          else (case select_by_id d i of
                  Some it \<Rightarrow> (json_response 200 (item_json it), d)
                | None \<Rightarrow> (json_response 404 (error_json ''Item not found''), d)))"
  using assms startsWith_items_neq[OF assms(3)] by (simp add: handler_sql_def)

lemma sql_get_all:
  assumes "method req = u ''GET''" "path req = Some (u ''/items'')"
  shows "handler_sql jp d req =
     (if failing d then (internal_error, d)
      else (json_response 200 (JArr (map item_json (select_all d))), d))"
  using assms by (simp add: handler_sql_def)

lemma sql_post:
  assumes "method req = u ''POST''" "path req = Some (u ''/items'')"
  shows "handler_sql jp d req =
     (case read_data jp (body req) of
        None \<Rightarrow> (json_response 400 (error_json ''Invalid JSON''), d)
      | Some data \<Rightarrow>
          if \<not> isValid (validateItemInput data)
          then (json_response 400 (validation_failed (errors (validateItemInput data))), d)
          else if failing d then (internal_error, d)
          else (json_response 201
                  (item_json (trimmed_item
                     (fst (insert_item d (name (trimmed_item 0 data)) (description (trimmed_item 0 data))))
                     data)),
                snd (insert_item d (name (trimmed_item 0 data)) (description (trimmed_item 0 data)))))"
  using assms by (simp add: handler_sql_def Let_def split_beta cong: option.case_cong if_cong)

lemma sql_put:
  assumes "method req = u ''PUT''" "path req = Some p" "startsWith p (u ''/items/'')"
  shows "handler_sql jp d req =
     (case path_id p of
        None \<Rightarrow> (json_response 400 (error_json ''Invalid item ID''), d)
      | Some i \<Rightarrow>
          if failing d then (internal_error, d)
          else (case select_by_id d i of
             None \<Rightarrow> (json_response 404 (error_json ''Item not found''), d)
           | Some existingItem \<Rightarrow>
               (case read_data jp (body req) of
                  None \<Rightarrow> (json_response 400 (error_json ''Invalid JSON''), d)
                | Some data \<Rightarrow>
                    if \<not> isValid (validateItemInput data)
                    then (json_response 400 (validation_failed (errors (validateItemInput data))), d)
                    else (json_response 200 (item_json (trimmed_item i data)),
                          update_item d (name (trimmed_item i data))
                            (description (trimmed_item i data)) i))))"
  using assms by (simp add: handler_sql_def Let_def cong: option.case_cong if_cong)

lemma sql_delete:
  assumes "method req = u ''DELETE''" "path req = Some p" "startsWith p (u ''/items/'')"
  shows "handler_sql jp d req =
     (case path_id p of
        None \<Rightarrow> (json_response 400 (error_json ''Invalid item ID''), d)
      | Some i \<Rightarrow>
          if failing d then (internal_error, d)
          else (case select_by_id d i of
             Some it \<Rightarrow>
               (json_response 200
                  (JObj [(u ''message'', JStr (u ''Item deleted'')), (u ''item'', item_json it)]),
                delete_item d i)
           | None \<Rightarrow> (json_response 404 (error_json ''Item not found''), d)))"
  using assms by (simp add: handler_sql_def Let_def cong: option.case_cong if_cong)



lemma details_validation_failed [simp]:
  "details (json_response st (validation_failed es)) = map JStr es"
  by (simp add: details_def json_response_def validation_failed_def)

lemma details_item_json [simp]: "details (json_response st (item_json it)) = []"
  by (simp add: details_def json_response_def item_json_def)

lemma status_json_response [simp]: "status (json_response st v) = st"
  by (simp add: json_response_def)

lemma payload_json_response [simp]: "payload (json_response st v) = Some v"
  by (simp add: json_response_def)



section \<open>Validation of the length limits\<close>




lemma split_on_not_Nil: "split_on c xs \<noteq> []"
  by (induction xs) (auto split: list.splits)

lemma hd_split_on: "hd (split_on c xs) = takeWhile (\<lambda>x. x \<noteq> c) xs"
  by (induction xs) (auto split: list.splits simp: split_on_not_Nil)

lemma path_id_items:
  "path_id (u ''/items/'' @ rest) = parseInt (takeWhile (\<lambda>x. x \<noteq> 0x2F) rest)"
proof -
  have "split_on 0x2F (u ''/items/'' @ rest) = [] # u ''items'' # split_on 0x2F rest"
    by (simp add: u_def)
  moreover obtain w ws where "split_on 0x2F rest = w # ws"
    using split_on_not_Nil[of "0x2F" rest] by (cases "split_on 0x2F rest") auto
  ultimately show ?thesis
    using hd_split_on[of "0x2F" rest] by (simp add: path_id_def index_def)
qed



lemma invalid_id:
  assumes m: "method req = u ''GET'' \<or> method req = u ''PUT'' \<or> method req = u ''DELETE''"
      and p: "path req = Some p" "startsWith p (u ''/items/'')"
      and n: "path_id p = None"
  shows "handler jp s req = (json_response 400 (error_json ''Invalid item ID''), s)"
    and "handler_sql jp d req = (json_response 400 (error_json ''Invalid item ID''), d)"
  using m n handler_get_id[OF _ p] handler_put[OF _ p] handler_delete[OF _ p]
    sql_get_id[OF _ p] sql_put[OF _ p] sql_delete[OF _ p]
  by auto

section \<open>Precedence of the not-found check on PUT\<close>



section \<open>Routing by the second path segment\<close>



section \<open>Falsy and empty bodies\<close>



section \<open>Every request falls in one route\<close>

lemma handler_options:
  "method req = u ''OPTIONS'' \<Longrightarrow> handler jp s req = (options_response, s)"
  "method req = u ''OPTIONS'' \<Longrightarrow> handler_sql jp d req = (options_response, d)"
  by (simp_all add: handler_def handler_sql_def)

lemma handler_unrouted:
  "unrouted req \<Longrightarrow> handler jp s req = (json_response 404 (error_json ''Not found''), s)"
  "unrouted req \<Longrightarrow> handler_sql jp d req = (json_response 404 (error_json ''Not found''), d)"
  by (auto simp: unrouted_def handler_def handler_sql_def split: option.splits)

lemma route_cases [case_names options get_all get_id post put delete unrouted]:
  obtains "method req = u ''OPTIONS''"
  | "method req = u ''GET''" "path req = Some (u ''/items'')"
  | p where "method req = u ''GET''" "path req = Some p" "startsWith p (u ''/items/'')"
  | "method req = u ''POST''" "path req = Some (u ''/items'')"
  | p where "method req = u ''PUT''" "path req = Some p" "startsWith p (u ''/items/'')"
  | p where "method req = u ''DELETE''" "path req = Some p" "startsWith p (u ''/items/'')"
  | "unrouted req"
  unfolding unrouted_def by (cases "path req") auto

section \<open>Array updates and their relational counterparts\<close>

lemma findIndex_Some_iff:
  "findIndex P xs = Some k \<Longrightarrow> k < length xs \<and> P (xs ! k)"
  by (induction xs arbitrary: k) (auto split: if_splits)

lemma splice_is_filter:
  assumes "findIndex (\<lambda>r. item_id r = i) xs = Some k" "distinct (map item_id xs)"
  shows "take k xs @ drop (Suc k) xs = filter (\<lambda>r. item_id r \<noteq> i) xs"
  using assms
proof (induction xs arbitrary: k)
  case Nil
  then show ?case by simp
next
  case (Cons x xs)
  show ?case
  proof (cases "item_id x = i")
    case True
    then have k: "k = 0" using Cons.prems(1) by simp
    have "i \<notin> item_id ` set xs" using Cons.prems(2) True by auto
    then have "filter (\<lambda>r. item_id r \<noteq> i) xs = xs"
      by (induction xs) auto
    then show ?thesis using True k by simp
  next
    case False
    then obtain k' where k: "k = Suc k'" "findIndex (\<lambda>r. item_id r = i) xs = Some k'"
      using Cons.prems(1) by auto
    then show ?thesis using False Cons.IH[of k'] Cons.prems(2) by simp
  qed
qed


lemma ids_assign:
  assumes "findIndex (\<lambda>r. item_id r = i) xs = Some k"
  shows "map item_id (xs[k := \<lparr>item_id = i, name = n, description = ds\<rparr>]) = map item_id xs"
proof -
  have "k < length xs" "item_id (xs ! k) = i" using findIndex_Some_iff[OF assms] by auto
  then show ?thesis by (simp add: map_update list_update_same_conv)
qed

lemma sorted_wrt_less_distinct: "sorted_wrt (<) (xs :: int list) \<Longrightarrow> distinct xs"
  by (induction xs) auto

lemma sorted_wrt_less_sorted: "sorted_wrt (<) (xs :: int list) \<Longrightarrow> sorted xs"
  by (induction xs) auto

lemma sort_key_ids: "sorted_wrt (<) (map item_id xs) \<Longrightarrow> sort_key item_id xs = xs"
  by (simp add: sort_key_id_if_sorted sorted_wrt_less_sorted)

lemma fold_max_bounded: "list_all (\<lambda>i. i \<le> a) xs \<Longrightarrow> fold max xs (a :: int) = a"
  by (induction xs) (auto simp: max_def)

lemma item_id_trimmed_item [simp]: "item_id (trimmed_item i data) = i"
  by (auto simp: trimmed_item_def split: option.splits)

lemma trimmed_item_eq:
  "trimmed_item i data = \<lparr>item_id = i, name = name (trimmed_item 0 data),
                           description = description (trimmed_item 0 data)\<rparr>"
  by (auto simp: trimmed_item_def split: option.splits)

section \<open>One request: invariant, assigned id, and agreement of the two servers\<close>

lemma status_options [simp]: "status options_response = 200"
  by (simp add: options_response_def)

lemma store_inv_ids:
  "store_inv s \<Longrightarrow> distinct (map item_id (items s))"
  by (simp add: store_inv_def sorted_wrt_less_distinct)

lemma sorted_wrt_splice:
  "sorted_wrt P xs \<Longrightarrow> sorted_wrt P (take k xs @ drop (Suc k) xs)"
proof (induction xs arbitrary: k)
  case Nil
  then show ?case by simp
next
  case (Cons x xs)
  show ?case
  proof (cases k)
    case 0
    then show ?thesis using Cons.prems by simp
  next
    case (Suc k')
    have "set (take k' xs @ drop (Suc k') xs) \<subseteq> set xs"
      using set_take_subset[of k' xs] set_drop_subset[of "Suc k'" xs] by auto
    then show ?thesis using Suc Cons by auto
  qed
qed

lemma list_all_splice:
  "list_all P xs \<Longrightarrow> list_all P (take k xs @ drop (Suc k) xs)"
  using set_take_subset[of k xs] set_drop_subset[of "Suc k" xs]
  by (auto simp: list_all_iff)

lemma handler_store_inv:
  assumes "store_inv s"
  shows "store_inv (snd (handler jp s req))"
proof (cases req rule: route_cases)
  case options
  then show ?thesis using assms by (simp add: handler_options)
next
  case get_all
  then show ?thesis using assms by (simp add: handler_get_all)
next
  case (get_id p)
  then show ?thesis using assms by (simp add: handler_get_id split: option.splits)
next
  case post
  have "store_inv (s\<lparr>items := items s @ [trimmed_item (nextId s) data], nextId := nextId s + 1\<rparr>)"
    for data
    using assms
    by (auto simp: store_inv_def sorted_wrt_append list_all_iff)
  then show ?thesis using assms post by (simp add: handler_post split: option.splits)
next
  case (put p)
  have "store_inv (s\<lparr>items := (items s)[k := trimmed_item i data]\<rparr>)"
    if "findIndex (\<lambda>it. item_id it = i) (items s) = Some k" for i k data
    using assms ids_assign[OF that] by (simp add: store_inv_def trimmed_item_eq[of i])
  then show ?thesis using assms put by (simp add: handler_put split: option.splits)
next
  case (delete p)
  have "store_inv (s\<lparr>items := take k (items s) @ drop (Suc k) (items s)\<rparr>)" for k
    using assms sorted_wrt_splice[of "(<)" "map item_id (items s)" k]
      list_all_splice[of _ "map item_id (items s)" k]
    by (simp add: store_inv_def take_map drop_map)
  then show ?thesis using assms delete by (simp add: handler_delete split: option.splits)
next
  case unrouted
  then show ?thesis using assms by (simp add: handler_unrouted)
qed

lemma handler_nextId:
  "nextId (snd (handler jp s req)) =
     (if status (fst (handler jp s req)) = 201 then nextId s + 1 else nextId s)"
proof (cases req rule: route_cases)
  case options
  then show ?thesis by (simp add: handler_options)
next
  case get_all
  then show ?thesis by (simp add: handler_get_all)
next
  case (get_id p)
  then show ?thesis by (simp add: handler_get_id split: option.splits)
next
  case post
  then show ?thesis by (simp add: handler_post split: option.splits)
next
  case (put p)
  then show ?thesis by (simp add: handler_put split: option.splits)
next
  case (delete p)
  then show ?thesis by (simp add: handler_delete split: option.splits)
next
  case unrouted
  then show ?thesis by (simp add: handler_unrouted)
qed

lemma created_id_item [simp]:
  "created_id (json_response 201 (item_json it)) = Some (JNum (of_int (item_id it)))"
  by (simp add: created_id_def item_json_def)

lemma created_id_other: "status r \<noteq> 201 \<Longrightarrow> created_id r = None"
  by (simp add: created_id_def)

lemma handler_created:
  "created_id (fst (handler jp s req)) =
     (if status (fst (handler jp s req)) = 201 then Some (JNum (of_int (nextId s))) else None)"
proof (cases req rule: route_cases)
  case options
  then show ?thesis by (simp add: handler_options created_id_other)
next
  case get_all
  then show ?thesis by (simp add: handler_get_all created_id_other)
next
  case (get_id p)
  then show ?thesis by (simp add: handler_get_id created_id_other split: option.splits)
next
  case post
  then show ?thesis by (simp add: handler_post created_id_other split: option.splits)
next
  case (put p)
  then show ?thesis by (simp add: handler_put created_id_other split: option.splits)
next
  case (delete p)
  then show ?thesis by (simp add: handler_delete created_id_other split: option.splits)
next
  case unrouted
  then show ?thesis by (simp add: handler_unrouted created_id_other)
qed


lemma insert_item_id:
  assumes "store_inv s" "same_data s d"
  shows "fst (insert_item d n ds) = nextId s"
proof -
  have b: "list_all (\<lambda>i. i \<le> nextId s - 1) (map item_id (items s))"
    using assms(1) by (auto simp: store_inv_def list_all_iff)
  have "fold max (map item_id (rows d)) (case seq d of None \<Rightarrow> 0 | Some q \<Rightarrow> q) = nextId s - 1"
    using assms(2) fold_max_bounded[OF b] by (simp add: same_data_def)
  then show ?thesis by (simp add: insert_item_def Let_def)
qed



lemma handler_sim_response:
  assumes inv: "store_inv s" and sd: "same_data s d"
  shows "fst (handler_sql jp d req) = fst (handler jp s req)"
proof -
  have nf: "\<not> failing d" and r: "rows d = items s" using sd by (simp_all add: same_data_def)
  have sel: "select_by_id d i = find (\<lambda>it. item_id it = i) (items s)" for i
    by (simp add: select_by_id_def r)
  have b: "findIndex (\<lambda>it. item_id it = i) (items s) = None \<Longrightarrow> select_by_id d i = None" for i
    by (simp add: sel findIndex_None_iff)
  have c: "findIndex (\<lambda>it. item_id it = i) (items s) = Some k
           \<Longrightarrow> select_by_id d i = Some (items s ! k)" for i k
    by (simp add: sel findIndex_Some_find)
  show ?thesis
  proof (cases req rule: route_cases)
    case options
    then show ?thesis by (simp add: handler_options)
  next
    case get_all
    have "select_all d = items s"
      using inv by (simp add: select_all_def r sort_key_ids store_inv_def)
    then show ?thesis using nf get_all by (simp add: handler_get_all sql_get_all)
  next
    case (get_id p)
    then show ?thesis using nf
      by (simp add: handler_get_id sql_get_id sel split: option.splits)
  next
    case post
    then show ?thesis using nf
      by (simp add: handler_post sql_post insert_item_id[OF inv sd] split: option.splits)
  next
    case (put p)
    show ?thesis using nf
      by (auto simp: handler_put[OF put] sql_put[OF put] b c split: option.splits)
  next
    case (delete p)
    show ?thesis using nf
      by (auto simp: handler_delete[OF delete] sql_delete[OF delete] b c split: option.splits)
  next
    case unrouted
    then show ?thesis by (simp add: handler_unrouted)
  qed
qed


section \<open>Sequences of requests\<close>

lemma run_Cons:
  "run jp s (r # rs) =
     (fst (handler jp s r) # fst (run jp (snd (handler jp s r)) rs),
      snd (run jp (snd (handler jp s r)) rs))"
  by (simp add: split_beta)

lemma run_sql_Cons:
  "run_sql jp d (r # rs) =
     (fst (handler_sql jp d r) # fst (run_sql jp (snd (handler_sql jp d r)) rs),
      snd (run_sql jp (snd (handler_sql jp d r)) rs))"
  by (simp add: split_beta)

lemma run_store_inv: "store_inv s \<Longrightarrow> store_inv (snd (run jp s reqs))"
proof (induction reqs arbitrary: s)
  case Nil
  then show ?case by simp
next
  case (Cons r rs)
  have "store_inv (snd (handler jp s r))" using Cons.prems by (rule handler_store_inv)
  then show ?case using Cons.IH by (simp only: run_Cons snd_conv)
qed


lemma run_nextId_mono: "nextId s \<le> nextId (snd (run jp s reqs))"
proof (induction reqs arbitrary: s)
  case Nil
  then show ?case by simp
next
  case (Cons r rs)
  have "nextId s \<le> nextId (snd (handler jp s r))" by (simp add: handler_nextId)
  also have "\<dots> \<le> nextId (snd (run jp (snd (handler jp s r)) rs))" by (rule Cons.IH)
  finally show ?case by (simp only: run_Cons snd_conv)
qed

lemma run_nextId_no_create:
  "list_all (\<lambda>r. status r \<noteq> 201) (fst (run jp s reqs)) \<Longrightarrow> nextId (snd (run jp s reqs)) = nextId s"
proof (induction reqs arbitrary: s)
  case Nil
  then show ?case by simp
next
  case (Cons r rs)
  from Cons.prems have a: "status (fst (handler jp s r)) \<noteq> 201"
    and b: "list_all (\<lambda>r. status r \<noteq> 201) (fst (run jp (snd (handler jp s r)) rs))"
    by (simp_all add: split_beta)
  have "nextId (snd (handler jp s r)) = nextId s" using a by (simp add: handler_nextId)
  then show ?case using Cons.IH[OF b] by (simp only: run_Cons snd_conv)
qed

lemma run_created:
  "List.map_filter created_id (fst (run jp s reqs))
     = map (\<lambda>k. JNum (of_int k)) [nextId s..nextId (snd (run jp s reqs)) - 1]"
proof (induction reqs arbitrary: s)
  case Nil
  then show ?case by simp
next
  case (Cons r rs)
  let ?s1 = "snd (handler jp s r)"
  let ?n = "nextId (snd (run jp ?s1 rs))"
  have ih: "List.map_filter created_id (fst (run jp ?s1 rs))
     = map (\<lambda>k. JNum (of_int k)) [nextId ?s1..?n - 1]" by (rule Cons.IH)
  have mono: "nextId ?s1 \<le> ?n" by (rule run_nextId_mono)
  show ?case
  proof (cases "status (fst (handler jp s r)) = 201")
    case True
    then have c: "created_id (fst (handler jp s r)) = Some (JNum (of_int (nextId s)))"
      and n: "nextId ?s1 = nextId s + 1"
      by (simp_all add: handler_created handler_nextId)
    have "[nextId s..?n - 1] = nextId s # [nextId s + 1..?n - 1]"
      using mono n by (simp add: upto_rec1)
    then show ?thesis using c n ih by (simp only: run_Cons fst_conv snd_conv) simp
  next
    case False
    then have c: "created_id (fst (handler jp s r)) = None"
      and n: "nextId ?s1 = nextId s"
      by (simp_all add: handler_created handler_nextId)
    then show ?thesis using ih by (simp only: run_Cons fst_conv snd_conv) simp
  qed
qed

lemma store_inv_init: "store_inv init_store"
  by (simp add: store_inv_def init_store_def)


lemma store_inv_reset: "store_inv (resetMyServerData s)"
  by (simp add: store_inv_def resetMyServerData_def)

lemma same_data_reset: "\<not> failing d \<Longrightarrow> same_data (resetMyServerData s) (resetMyServerData_sql d)"
  by (simp add: same_data_def resetMyServerData_def resetMyServerData_sql_def)

text \<open>While the store is empty, a request that creates nothing changes nothing.\<close>

lemma handler_quiet:
  assumes "items s = []" "status (fst (handler jp s req)) \<noteq> 201"
  shows "snd (handler jp s req) = s"
proof (cases req rule: route_cases)
  case options
  then show ?thesis by (simp add: handler_options)
next
  case get_all
  then show ?thesis by (simp add: handler_get_all)
next
  case (get_id p)
  then show ?thesis by (simp add: handler_get_id split: option.splits)
next
  case post
  then show ?thesis using assms(2) by (simp add: handler_post split: option.splits if_splits)
next
  case (put p)
  then show ?thesis using assms(1) by (simp add: handler_put split: option.splits)
next
  case (delete p)
  then show ?thesis using assms(1) by (simp add: handler_delete split: option.splits)
next
  case unrouted
  then show ?thesis by (simp add: handler_unrouted)
qed

lemma handler_sql_quiet:
  assumes "rows d = []" "status (fst (handler_sql jp d req)) \<noteq> 201"
  shows "snd (handler_sql jp d req) = d"
proof (cases req rule: route_cases)
  case options
  then show ?thesis by (simp add: handler_options)
next
  case get_all
  then show ?thesis by (simp add: sql_get_all)
next
  case (get_id p)
  then show ?thesis by (simp add: sql_get_id split: option.splits)
next
  case post
  then show ?thesis using assms(2) by (simp add: sql_post split: option.splits if_splits)
next
  case (put p)
  then show ?thesis using assms(1) by (simp add: sql_put select_by_id_def split: option.splits)
next
  case (delete p)
  then show ?thesis using assms(1) by (simp add: sql_delete select_by_id_def split: option.splits)
next
  case unrouted
  then show ?thesis by (simp add: handler_unrouted)
qed

lemma run_quiet:
  assumes "store_inv s" "same_data s d" "items s = []"
      and "list_all (\<lambda>r. status r \<noteq> 201) (fst (run jp s reqs))"
  shows "fst (run_sql jp d reqs) = fst (run jp s reqs) \<and>
         snd (run jp s reqs) = s \<and> snd (run_sql jp d reqs) = d"
  using assms(4)
proof (induction reqs)
  case Nil
  then show ?case by simp
next
  case (Cons r rs)
  have h: "fst (handler_sql jp d r) = fst (handler jp s r)"
    using assms(1,2) by (rule handler_sim_response)
  from Cons.prems have a: "status (fst (handler jp s r)) \<noteq> 201"
    by (simp add: split_beta)
  have s1: "snd (handler jp s r) = s" using assms(3) a by (rule handler_quiet)
  have "rows d = []" using assms(2,3) by (simp add: same_data_def)
  then have d1: "snd (handler_sql jp d r) = d" using a h by (simp add: handler_sql_quiet)
  from Cons.prems have b: "list_all (\<lambda>r. status r \<noteq> 201) (fst (run jp s rs))"
    using s1 by (simp add: split_beta)
  show ?case using Cons.IH[OF b] h
    by (simp only: run_Cons run_sql_Cons fst_conv snd_conv s1 d1)
qed

section \<open>The two servers answer alike\<close>




section \<open>Reset\<close>

text \<open>
  C6: after a reset, from any state, \<open>GET /items\<close> is answered 200 with the empty array,
  and after any further requests none of which created an item, a request that creates
  one (a 201 response) returns the id 1. The same holds for the SQLite server when the
  database does not fail, whose responses are those of the in-memory server.
\<close>

theorem reset_restarts_ids:
  assumes "method g = u ''GET''"
      and "path g = Some (u ''/items'')"
      and "run jp (resetMyServerData s) reqs = (resps, s')"
      and "list_all (\<lambda>r. status r \<noteq> 201) resps"
      and "status (fst (handler jp s' req)) = 201"
      and "\<not> failing d"
  shows "handler jp (resetMyServerData s) g
           = (json_response 200 (JArr []), resetMyServerData s) \<and>
         created_id (fst (handler jp s' req)) = Some (JNum 1) \<and>
         handler_sql jp (resetMyServerData_sql d) g
           = (json_response 200 (JArr []), resetMyServerData_sql d) \<and>
         fst (run_sql jp (resetMyServerData_sql d) reqs) = resps \<and>
         created_id (fst (handler_sql jp (snd (run_sql jp (resetMyServerData_sql d) reqs)) req))
           = Some (JNum 1)"
proof -
  let ?s0 = "resetMyServerData s" and ?d0 = "resetMyServerData_sql d"
  have s': "s' = snd (run jp ?s0 reqs)" and r: "resps = fst (run jp ?s0 reqs)"
    using assms(3) by simp_all
  have a: "handler jp ?s0 g = (json_response 200 (JArr []), ?s0)"
    using assms(1,2) by (simp add: handler_get_all resetMyServerData_def)
  have "nextId s' = nextId ?s0"
    unfolding s' using assms(4) unfolding r by (rule run_nextId_no_create)
  then have n: "nextId s' = 1" by (simp add: resetMyServerData_def)
  have b: "created_id (fst (handler jp s' req)) = Some (JNum 1)"
    using assms(5) n by (simp add: handler_created)
  have c: "handler_sql jp ?d0 g = (json_response 200 (JArr []), ?d0)"
    using assms(1,2,6) by (simp add: sql_get_all resetMyServerData_sql_def select_all_def)
  have e: "items ?s0 = []" by (simp add: resetMyServerData_def)
  have q: "list_all (\<lambda>r. status r \<noteq> 201) (fst (run jp ?s0 reqs))"
    using assms(4) unfolding r .
  note quiet = run_quiet[OF store_inv_reset same_data_reset[OF assms(6)] e q]
  have sim: "fst (run_sql jp ?d0 reqs) = resps" using quiet unfolding r by simp
  have s0: "s' = ?s0" and d0: "snd (run_sql jp ?d0 reqs) = ?d0"
    using quiet unfolding s' by simp_all
  have "fst (handler_sql jp ?d0 req) = fst (handler jp ?s0 req)"
    using store_inv_reset same_data_reset[OF assms(6)] by (rule handler_sim_response)
  then show ?thesis using a b c sim unfolding d0 s0 by simp
qed

theorem reset_restarts_ids_witness:
  \<open>created_id (fst (handler
       (map_of [(u ''{"name":"a","description":"b"}'',
                 JObj [(u ''name'', JStr (u ''a'')), (u ''description'', JStr (u ''b''))])])
       (resetMyServerData \<lparr>items = [\<lparr>item_id = 7, name = u ''n'', description = u ''d''\<rparr>], nextId = 8\<rparr>)
       \<lparr>method = u ''POST'', path = Some (u ''/items''), body = u ''{"name":"a","description":"b"}''\<rparr>))
     = Some (JNum 1) \<and>
   handler_sql
       (map_of [(u ''{"name":"a","description":"b"}'',
                 JObj [(u ''name'', JStr (u ''a'')), (u ''description'', JStr (u ''b''))])])
       (resetMyServerData_sql
          \<lparr>rows = [\<lparr>item_id = 7, name = u ''n'', description = u ''d''\<rparr>], seq = Some 7, failing = False\<rparr>)
       \<lparr>method = u ''GET'', path = Some (u ''/items''), body = []\<rparr>
     = (json_response 200 (JArr []),
        resetMyServerData_sql
          \<lparr>rows = [\<lparr>item_id = 7, name = u ''n'', description = u ''d''\<rparr>], seq = Some 7, failing = False\<rparr>)\<close>
proof -
  let ?b = \<open>u ''{"name":"a","description":"b"}''\<close>
  let ?jp = "map_of [(?b, JObj [(u ''name'', JStr (u ''a'')), (u ''description'', JStr (u ''b''))])]"
  let ?s = "\<lparr>items = [\<lparr>item_id = 7, name = u ''n'', description = u ''d''\<rparr>], nextId = 8\<rparr>"
  let ?d = "\<lparr>rows = [\<lparr>item_id = 7, name = u ''n'', description = u ''d''\<rparr>], seq = Some 7, failing = False\<rparr>"
  let ?g = "\<lparr>method = u ''GET'', path = Some (u ''/items''), body = []\<rparr>"
  let ?post = "\<lparr>method = u ''POST'', path = Some (u ''/items''), body = ?b\<rparr>"
  have h1: "method ?g = u ''GET''" by simp
  have h2: "path ?g = Some (u ''/items'')" by simp
  have h3: "run ?jp (resetMyServerData ?s) [] = ([], resetMyServerData ?s)" by simp
  have h4: "list_all (\<lambda>r. status r \<noteq> 201) []" by simp
  have h5: "status (fst (handler ?jp (resetMyServerData ?s) ?post)) = 201" by code_simp
  have h6: "\<not> failing ?d" by simp
  show ?thesis
    using reset_restarts_ids[where g = ?g and jp = ?jp and s = ?s and reqs = "[]" and req = ?post
        and d = ?d, OF h1 h2 h3 h4 h5 h6]
    by simp
qed

section \<open>The two moments of the in-memory PUT\<close>

text \<open>
  With nothing served in between, the lookup followed by the end of the body is
  \<open>handler\<close> on the whole request.
\<close>

lemma put_lookup_answers:
  assumes "method req = u ''PUT''" "path req = Some p" "startsWith p (u ''/items/'')"
      and "put_lookup s p = Inl r"
  shows "handler jp s req = (r, s)"
  using assms(4) by (auto simp: handler_put[OF assms(1,2,3)] put_lookup_def split: option.splits)

lemma put_lookup_then_body:
  assumes "method req = u ''PUT''" "path req = Some p" "startsWith p (u ''/items/'')"
      and "put_lookup s p = Inr (i, k)"
  shows "put_body_end jp s i k (body req) = Inr (handler jp s req)"
proof -
  have pid: "path_id p = Some i" and fi: "findIndex (\<lambda>it. item_id it = i) (items s) = Some k"
    using assms(4) by (auto simp: put_lookup_def split: option.splits)
  have "k < length (items s)" using findIndex_Some_iff[OF fi] by simp
  then show ?thesis using pid fi
    by (auto simp: handler_put[OF assms(1,2,3)] put_body_end_def Let_def split: option.splits)
qed


lemma handler_ids_below:
  assumes "ids_below s"
  shows "ids_below (snd (handler jp s req))"
proof (cases req rule: route_cases)
  case options
  then show ?thesis using assms by (simp add: handler_options)
next
  case get_all
  then show ?thesis using assms by (simp add: handler_get_all)
next
  case (get_id p)
  then show ?thesis using assms by (simp add: handler_get_id split: option.splits)
next
  case post
  have "ids_below (s\<lparr>items := items s @ [trimmed_item (nextId s) data], nextId := nextId s + 1\<rparr>)"
    for data
    using assms by (auto simp: ids_below_def list_all_iff)
  then show ?thesis using assms post by (simp add: handler_post split: option.splits)
next
  case (put p)
  have "ids_below (s\<lparr>items := (items s)[k := trimmed_item i data]\<rparr>)"
    if "findIndex (\<lambda>it. item_id it = i) (items s) = Some k" for i k data
    using assms ids_assign[OF that] by (simp add: ids_below_def trimmed_item_eq[of i])
  then show ?thesis using assms put by (simp add: handler_put split: option.splits)
next
  case (delete p)
  have "ids_below (s\<lparr>items := take k (items s) @ drop (Suc k) (items s)\<rparr>)" for k
    using assms list_all_splice[of _ "map item_id (items s)" k]
    by (simp add: ids_below_def take_map drop_map)
  then show ?thesis using assms delete by (simp add: handler_delete split: option.splits)
next
  case unrouted
  then show ?thesis using assms by (simp add: handler_unrouted)
qed

lemma put_lookup_id_below:
  assumes "ids_below s" "put_lookup s p = Inr (i, k)"
  shows "i < nextId s"
proof -
  have fi: "findIndex (\<lambda>it. item_id it = i) (items s) = Some k"
    using assms(2) by (auto simp: put_lookup_def split: option.splits)
  have "k < length (items s)" "item_id (items s ! k) = i"
    using findIndex_Some_iff[OF fi] by simp_all
  then have "i \<in> set (map item_id (items s))" by (metis length_map nth_map nth_mem)
  then show ?thesis using assms(1) by (auto simp: ids_below_def list_all_iff)
qed

lemma put_body_end_ids_below:
  assumes "ids_below s" "i < nextId s" "put_body_end jp s i k b = Inr (r, s')"
  shows "ids_below s'"
proof -
  have "set (map item_id ((items s)[k := trimmed_item i data])) \<subseteq> insert i (set (map item_id (items s)))"
    for data
    using set_update_subset_insert[of "map item_id (items s)" k i] by (simp add: map_update)
  then have a: "ids_below (s\<lparr>items := (items s)[k := trimmed_item i data]\<rparr>)" for data
    using assms(1,2) unfolding ids_below_def list_all_iff by (simp del: set_map) blast
  have b: "ids_below (s\<lparr>items := items s @ [trimmed_item i data]\<rparr>)" for data
    using assms(1,2) by (auto simp: ids_below_def list_all_iff)
  show ?thesis
    using assms(1,3) a b
    by (auto simp: put_body_end_def Let_def split: option.splits if_splits)
qed

section \<open>Assigned ids\<close>

text \<open>
  With the requests handled one at a time, the stored ids are pairwise distinct and
  increase along the array, and the ids returned by the successful creations are
  1, 2, 3, ... in that order, whatever was deleted in between and whatever the bodies
  held.
\<close>

lemma one_at_a_time_ids:
  assumes "run jp init_store reqs = (resps, s)"
  shows "distinct (map item_id (items s)) \<and>
         sorted_wrt (<) (map item_id (items s)) \<and>
         list_all (\<lambda>i. 1 \<le> i \<and> i < nextId s) (map item_id (items s)) \<and>
         List.map_filter created_id resps = map (\<lambda>k. JNum (of_int k)) [1..nextId s - 1]"
proof -
  have s: "s = snd (run jp init_store reqs)" and r: "resps = fst (run jp init_store reqs)"
    using assms by simp_all
  have inv: "store_inv s" unfolding s using store_inv_init by (rule run_store_inv)
  have c: "List.map_filter created_id resps = map (\<lambda>k. JNum (of_int k)) [1..nextId s - 1]"
    unfolding s r using run_created[of jp init_store reqs] by (simp add: init_store_def)
  show ?thesis
    using inv store_inv_ids[OF inv] c by (simp add: store_inv_def)
qed

text \<open>
  C5 does not hold of the in-memory server when a \<open>DELETE\<close> is served between the
  arrival of a \<open>PUT\<close> and the end of its body. Three items are created; \<open>PUT /items/3\<close>
  arrives and finds index 2; \<open>DELETE /items/1\<close> is served and item 3 moves to index 1;
  the body of the \<open>PUT\<close> ends and the write at index 2 appends a second item with id 3.
\<close>

theorem overlapping_put_duplicates_id:
  \<open>snd (run (map_of [(u ''{"name":"a","description":"b"}'',
                       JObj [(u ''name'', JStr (u ''a'')), (u ''description'', JStr (u ''b''))])])
          init_store
          [\<lparr>method = u ''POST'', path = Some (u ''/items''), body = u ''{"name":"a","description":"b"}''\<rparr>,
           \<lparr>method = u ''POST'', path = Some (u ''/items''), body = u ''{"name":"a","description":"b"}''\<rparr>,
           \<lparr>method = u ''POST'', path = Some (u ''/items''), body = u ''{"name":"a","description":"b"}''\<rparr>])
     = \<lparr>items = [\<lparr>item_id = 1, name = u ''a'', description = u ''b''\<rparr>,
                 \<lparr>item_id = 2, name = u ''a'', description = u ''b''\<rparr>,
                 \<lparr>item_id = 3, name = u ''a'', description = u ''b''\<rparr>], nextId = 4\<rparr> \<and>
   put_lookup
       \<lparr>items = [\<lparr>item_id = 1, name = u ''a'', description = u ''b''\<rparr>,
                 \<lparr>item_id = 2, name = u ''a'', description = u ''b''\<rparr>,
                 \<lparr>item_id = 3, name = u ''a'', description = u ''b''\<rparr>], nextId = 4\<rparr>
       (u ''/items/3'')
     = Inr (3, 2) \<and>
   snd (handler (map_of [])
          \<lparr>items = [\<lparr>item_id = 1, name = u ''a'', description = u ''b''\<rparr>,
                    \<lparr>item_id = 2, name = u ''a'', description = u ''b''\<rparr>,
                    \<lparr>item_id = 3, name = u ''a'', description = u ''b''\<rparr>], nextId = 4\<rparr>
          \<lparr>method = u ''DELETE'', path = Some (u ''/items/1''), body = []\<rparr>)
     = \<lparr>items = [\<lparr>item_id = 2, name = u ''a'', description = u ''b''\<rparr>,
                 \<lparr>item_id = 3, name = u ''a'', description = u ''b''\<rparr>], nextId = 4\<rparr> \<and>
   put_body_end
       (map_of [(u ''{"name":"c","description":"d"}'',
                 JObj [(u ''name'', JStr (u ''c'')), (u ''description'', JStr (u ''d''))])])
       \<lparr>items = [\<lparr>item_id = 2, name = u ''a'', description = u ''b''\<rparr>,
                 \<lparr>item_id = 3, name = u ''a'', description = u ''b''\<rparr>], nextId = 4\<rparr>
       3 2 (u ''{"name":"c","description":"d"}'')
     = Inr (json_response 200
              (JObj [(u ''id'', JNum 3), (u ''name'', JStr (u ''c'')), (u ''description'', JStr (u ''d''))]),
            \<lparr>items = [\<lparr>item_id = 2, name = u ''a'', description = u ''b''\<rparr>,
                      \<lparr>item_id = 3, name = u ''a'', description = u ''b''\<rparr>,
                      \<lparr>item_id = 3, name = u ''c'', description = u ''d''\<rparr>], nextId = 4\<rparr>) \<and>
   \<not> distinct (map item_id [\<lparr>item_id = 2, name = u ''a'', description = u ''b''\<rparr>,
                             \<lparr>item_id = 3, name = u ''a'', description = u ''b''\<rparr>,
                             \<lparr>item_id = 3, name = u ''c'', description = u ''d''\<rparr>])\<close>
  by code_simp

section \<open>Deleting one item\<close>

text \<open>
  In a store with pairwise distinct ids, \<open>DELETE /items/:id\<close> on a stored id is answered
  200 with the message "Item deleted" and the removed item; the store then holds the
  other items, unchanged and in their order, which is what \<open>GET /items\<close> lists, and \<open>GET\<close>
  on the same path is answered 404. The SQLite server does the same, listing the
  remaining rows in id order.
\<close>

lemma delete_with_distinct_ids:
  assumes "method req = u ''DELETE''"
      and "path req = Some p"
      and "startsWith p (u ''/items/'')"
      and "path_id p = Some i"
      and "find (\<lambda>r. item_id r = i) (items s) = Some it"
      and "distinct (map item_id (items s))"
      and "method g = u ''GET''"
      and "path g = Some (u ''/items'')"
      and "\<not> failing d"
      and "select_by_id d i = Some row"
  shows "handler jp s req
           = (json_response 200
                (JObj [(u ''message'', JStr (u ''Item deleted'')), (u ''item'', item_json it)]),
              s\<lparr>items := filter (\<lambda>r. item_id r \<noteq> i) (items s)\<rparr>) \<and>
         handler jp (s\<lparr>items := filter (\<lambda>r. item_id r \<noteq> i) (items s)\<rparr>) g
           = (json_response 200 (JArr (map item_json (filter (\<lambda>r. item_id r \<noteq> i) (items s)))),
              s\<lparr>items := filter (\<lambda>r. item_id r \<noteq> i) (items s)\<rparr>) \<and>
         handler jp (s\<lparr>items := filter (\<lambda>r. item_id r \<noteq> i) (items s)\<rparr>)
             (req\<lparr>method := u ''GET''\<rparr>)
           = (json_response 404 (error_json ''Item not found''),
              s\<lparr>items := filter (\<lambda>r. item_id r \<noteq> i) (items s)\<rparr>) \<and>
         handler_sql jp d req
           = (json_response 200
                (JObj [(u ''message'', JStr (u ''Item deleted'')), (u ''item'', item_json row)]),
              delete_item d i) \<and>
         handler_sql jp (delete_item d i) g
           = (json_response 200 (JArr (map item_json (filter (\<lambda>r. item_id r \<noteq> i) (select_all d)))),
              delete_item d i) \<and>
         handler_sql jp (delete_item d i) (req\<lparr>method := u ''GET''\<rparr>)
           = (json_response 404 (error_json ''Item not found''), delete_item d i)"
proof -
  let ?s' = "s\<lparr>items := filter (\<lambda>r. item_id r \<noteq> i) (items s)\<rparr>"
  obtain k where k: "findIndex (\<lambda>r. item_id r = i) (items s) = Some k"
    using assms(5) findIndex_None_iff[of "\<lambda>r. item_id r = i" "items s"]
    by (cases "findIndex (\<lambda>r. item_id r = i) (items s)") auto
  have it: "items s ! k = it" using findIndex_Some_find[OF k] assms(5) by simp
  have sp: "take k (items s) @ drop (Suc k) (items s) = filter (\<lambda>r. item_id r \<noteq> i) (items s)"
    using k assms(6) by (rule splice_is_filter)
  have gone: "find (\<lambda>r. item_id r = i) (filter (\<lambda>r. item_id r \<noteq> i) xs) = None" for xs :: "item list"
    by (induction xs) auto
  have m1: "method (req\<lparr>method := u ''GET''\<rparr>) = u ''GET''"
    and p1: "path (req\<lparr>method := u ''GET''\<rparr>) = Some p"
    using assms(2) by simp_all
  have a: "handler jp s req
           = (json_response 200
                (JObj [(u ''message'', JStr (u ''Item deleted'')), (u ''item'', item_json it)]), ?s')"
    using assms(4) k it sp by (simp add: handler_delete[OF assms(1,2,3)])
  have b: "handler jp ?s' g
           = (json_response 200 (JArr (map item_json (filter (\<lambda>r. item_id r \<noteq> i) (items s)))), ?s')"
    using assms(7,8) by (simp add: handler_get_all)
  have c: "handler jp ?s' (req\<lparr>method := u ''GET''\<rparr>)
           = (json_response 404 (error_json ''Item not found''), ?s')"
    using assms(4) gone by (simp add: handler_get_id[OF m1 p1 assms(3)])
  have nf': "\<not> failing (delete_item d i)" using assms(9) by (simp add: delete_item_def)
  have a': "handler_sql jp d req
           = (json_response 200
                (JObj [(u ''message'', JStr (u ''Item deleted'')), (u ''item'', item_json row)]),
              delete_item d i)"
    using assms(4,9,10) by (simp add: sql_delete[OF assms(1,2,3)])
  have "select_all (delete_item d i) = filter (\<lambda>r. item_id r \<noteq> i) (select_all d)"
    by (simp add: select_all_def delete_item_def filter_sort)
  then have b': "handler_sql jp (delete_item d i) g
           = (json_response 200 (JArr (map item_json (filter (\<lambda>r. item_id r \<noteq> i) (select_all d)))),
              delete_item d i)"
    using assms(7,8) nf' by (simp add: sql_get_all)
  have "select_by_id (delete_item d i) i = None"
    using gone by (simp add: select_by_id_def delete_item_def)
  then have c': "handler_sql jp (delete_item d i) (req\<lparr>method := u ''GET''\<rparr>)
           = (json_response 404 (error_json ''Item not found''), delete_item d i)"
    using assms(4) nf' by (simp add: sql_get_id[OF m1 p1 assms(3)])
  show ?thesis using a b c a' b' c' by simp
qed

text \<open>
  C7 does not hold of the in-memory server in the store that the overlapping \<open>PUT\<close> and
  \<open>DELETE\<close> leave behind, which holds id 3 twice: \<open>DELETE /items/3\<close> is answered 200 with
  the first of the two and removes only that one, and the \<open>GET /items/3\<close> that follows is
  answered 200 with the other, not 404.
\<close>

theorem delete_leaves_duplicate_id:
  \<open>put_body_end
       (map_of [(u ''{"name":"c","description":"d"}'',
                 JObj [(u ''name'', JStr (u ''c'')), (u ''description'', JStr (u ''d''))])])
       \<lparr>items = [\<lparr>item_id = 2, name = u ''a'', description = u ''b''\<rparr>,
                 \<lparr>item_id = 3, name = u ''a'', description = u ''b''\<rparr>], nextId = 4\<rparr>
       3 2 (u ''{"name":"c","description":"d"}'')
     = Inr (json_response 200
              (JObj [(u ''id'', JNum 3), (u ''name'', JStr (u ''c'')), (u ''description'', JStr (u ''d''))]),
            \<lparr>items = [\<lparr>item_id = 2, name = u ''a'', description = u ''b''\<rparr>,
                      \<lparr>item_id = 3, name = u ''a'', description = u ''b''\<rparr>,
                      \<lparr>item_id = 3, name = u ''c'', description = u ''d''\<rparr>], nextId = 4\<rparr>) \<and>
   status (fst (handler (map_of [])
       \<lparr>items = [\<lparr>item_id = 2, name = u ''a'', description = u ''b''\<rparr>,
                 \<lparr>item_id = 3, name = u ''a'', description = u ''b''\<rparr>,
                 \<lparr>item_id = 3, name = u ''c'', description = u ''d''\<rparr>], nextId = 4\<rparr>
       \<lparr>method = u ''DELETE'', path = Some (u ''/items/3''), body = []\<rparr>)) = 200 \<and>
   payload (fst (handler (map_of [])
       \<lparr>items = [\<lparr>item_id = 2, name = u ''a'', description = u ''b''\<rparr>,
                 \<lparr>item_id = 3, name = u ''a'', description = u ''b''\<rparr>,
                 \<lparr>item_id = 3, name = u ''c'', description = u ''d''\<rparr>], nextId = 4\<rparr>
       \<lparr>method = u ''DELETE'', path = Some (u ''/items/3''), body = []\<rparr>))
     = Some (JObj [(u ''message'', JStr (u ''Item deleted'')),
                   (u ''item'', JObj [(u ''id'', JNum 3), (u ''name'', JStr (u ''a'')),
                                      (u ''description'', JStr (u ''b''))])]) \<and>
   snd (handler (map_of [])
       \<lparr>items = [\<lparr>item_id = 2, name = u ''a'', description = u ''b''\<rparr>,
                 \<lparr>item_id = 3, name = u ''a'', description = u ''b''\<rparr>,
                 \<lparr>item_id = 3, name = u ''c'', description = u ''d''\<rparr>], nextId = 4\<rparr>
       \<lparr>method = u ''DELETE'', path = Some (u ''/items/3''), body = []\<rparr>)
     = \<lparr>items = [\<lparr>item_id = 2, name = u ''a'', description = u ''b''\<rparr>,
                 \<lparr>item_id = 3, name = u ''c'', description = u ''d''\<rparr>], nextId = 4\<rparr> \<and>
   status (fst (handler (map_of [])
       \<lparr>items = [\<lparr>item_id = 2, name = u ''a'', description = u ''b''\<rparr>,
                 \<lparr>item_id = 3, name = u ''c'', description = u ''d''\<rparr>], nextId = 4\<rparr>
       \<lparr>method = u ''GET'', path = Some (u ''/items/3''), body = []\<rparr>)) = 200 \<and>
   payload (fst (handler (map_of [])
       \<lparr>items = [\<lparr>item_id = 2, name = u ''a'', description = u ''b''\<rparr>,
                 \<lparr>item_id = 3, name = u ''c'', description = u ''d''\<rparr>], nextId = 4\<rparr>
       \<lparr>method = u ''GET'', path = Some (u ''/items/3''), body = []\<rparr>))
     = Some (JObj [(u ''id'', JNum 3), (u ''name'', JStr (u ''c'')),
                   (u ''description'', JStr (u ''d''))])\<close>
  by code_simp

section \<open>Decimal ids in a path\<close>









section \<open>Create, then read\<close>



section \<open>Segments with no number to read\<close>

lemma is_digit_10: "is_digit 10 c \<longleftrightarrow> dec_digit c"
  by (auto simp: is_digit_def digit_val_def dec_digit_def word_le_nat_alt split: if_splits)

lemma is_digit_16: "is_digit 16 c \<longleftrightarrow> hex_digit c"
  by (auto simp: is_digit_def digit_val_def hex_digit_def dec_digit_def word_le_nat_alt
      split: if_splits)

lemma takeWhile_Nil_iff:
  "takeWhile P xs = [] \<longleftrightarrow> (case xs of [] \<Rightarrow> True | c # cs \<Rightarrow> \<not> P c)"
  by (cases xs) auto

lemma strip_sign_alt:
  "(if S \<noteq> [] \<and> (hd S = 0x2B \<or> hd S = 0x2D) then tl S else S) = strip_sign S"
  by (cases S) (auto simp: strip_sign_def)

lemma hex_prefix_length: "take 2 r = u ''0x'' \<or> take 2 r = u ''0X'' \<Longrightarrow> 2 \<le> length r"
  by (auto dest!: arg_cong[where f = length])

lemma parseInt_None_iff: "parseInt seg = None \<longleftrightarrow> no_number seg"
proof -
  let ?r = "strip_sign (dropWhile isStrWhiteSpace seg)"
  show ?thesis
  proof (cases "take 2 ?r = u ''0x'' \<or> take 2 ?r = u ''0X''")
    case True
    then have "2 \<le> length ?r" by (rule hex_prefix_length)
    then show ?thesis using True
      by (simp add: parseInt_def no_number_def Let_def strip_sign_alt takeWhile_Nil_iff
          is_digit_16 split: list.splits)
  next
    case False
    then show ?thesis
      by (simp add: parseInt_def no_number_def Let_def strip_sign_alt takeWhile_Nil_iff
          is_digit_10 split: list.splits)
  qed
qed

lemma path_id_segment:
  assumes "startsWith p (u ''/items/'')"
  shows "path_id p = parseInt (id_segment p)"
proof -
  have "p = u ''/items/'' @ drop (length (u ''/items/'')) p"
    using assms by (metis append_take_drop_id startsWith_def)
  then have "path_id p = path_id (u ''/items/'' @ drop (length (u ''/items/'')) p)" by simp
  then show ?thesis by (simp only: path_id_items id_segment_def)
qed

lemma json_response_eq [simp]:
  "json_response st v = json_response st' v' \<longleftrightarrow> st = st' \<and> v = v'"
  by (auto simp: json_response_def)

lemma error_json_eq [simp]: "error_json a = error_json b \<longleftrightarrow> a = b"
  by (simp add: error_json_def)

lemma error_json_other [simp]:
  "validation_failed es \<noteq> error_json a"
  "item_json it \<noteq> error_json a"
  by (simp_all add: error_json_def validation_failed_def item_json_def)

text \<open>Once the id is read, no answer of an id route is the 400 "Invalid item ID".\<close>

lemma parsed_id_not_invalid:
  assumes m: "method req = u ''GET'' \<or> method req = u ''PUT'' \<or> method req = u ''DELETE''"
      and p: "path req = Some p" "startsWith p (u ''/items/'')"
      and i: "path_id p = Some i"
  shows "fst (handler jp s req) \<noteq> json_response 400 (error_json ''Invalid item ID'')"
    and "fst (handler_sql jp d req) \<noteq> json_response 400 (error_json ''Invalid item ID'')"
proof -
  consider "method req = u ''GET''" | "method req = u ''PUT''" | "method req = u ''DELETE''"
    using m by blast
  then show "fst (handler jp s req) \<noteq> json_response 400 (error_json ''Invalid item ID'')"
  proof cases
    case 1
    then show ?thesis using i by (simp add: handler_get_id[OF _ p] split: option.splits)
  next
    case 2
    then show ?thesis using i by (simp add: handler_put[OF _ p] split: option.splits)
  next
    case 3
    then show ?thesis using i by (simp add: handler_delete[OF _ p] split: option.splits)
  qed
  consider "method req = u ''GET''" | "method req = u ''PUT''" | "method req = u ''DELETE''"
    using m by blast
  then show "fst (handler_sql jp d req) \<noteq> json_response 400 (error_json ''Invalid item ID'')"
  proof cases
    case 1
    then show ?thesis using i
      by (simp add: sql_get_id[OF _ p] internal_error_def split: option.splits)
  next
    case 2
    then show ?thesis using i
      by (simp add: sql_put[OF _ p] internal_error_def split: option.splits)
  next
    case 3
    then show ?thesis using i
      by (simp add: sql_delete[OF _ p] internal_error_def split: option.splits)
  qed
qed

section \<open>Malformed ids\<close>

text \<open>
  C2, as stated, fails: \<open>parseInt\<close> reads the longest numeric prefix, so the segment
  "12abc" is the id 12 and the store is searched: the answer is 404 while item 12 is
  absent and the item itself once it is stored.
\<close>

theorem numeric_prefix_id_counterexample:
  "handler (map_of []) init_store
       \<lparr>method = u ''GET'', path = Some (u ''/items/12abc''), body = []\<rparr>
     = (json_response 404 (error_json ''Item not found''), init_store) \<and>
   handler (map_of [])
       \<lparr>items = [\<lparr>item_id = 12, name = u ''n'', description = u ''d''\<rparr>], nextId = 13\<rparr>
       \<lparr>method = u ''GET'', path = Some (u ''/items/12abc''), body = []\<rparr>
     = (json_response 200 (item_json \<lparr>item_id = 12, name = u ''n'', description = u ''d''\<rparr>),
        \<lparr>items = [\<lparr>item_id = 12, name = u ''n'', description = u ''d''\<rparr>], nextId = 13\<rparr>) \<and>
   handler_sql (map_of []) init_db
       \<lparr>method = u ''DELETE'', path = Some (u ''/items/12abc''), body = []\<rparr>
     = (json_response 404 (error_json ''Item not found''), init_db)"
  by code_simp

text \<open>
  C2, amended: on the three id routes the handler answers 400 "Invalid item ID", without
  reading or changing the store (whatever it holds, a failing database included),
  exactly for the paths whose id segment has no number to read: after leading white
  space and one optional sign, what is left either has the prefix "0x" or "0X" with no
  hexadecimal digit right after it, or has no such prefix and does not start with a
  decimal digit. Such segments are "abc", "", "-" and "0x"; "12abc" is not one.
\<close>

theorem invalid_id_rejected:
  assumes "method req = u ''GET'' \<or> method req = u ''PUT'' \<or> method req = u ''DELETE''"
      and "path req = Some p"
      and "startsWith p (u ''/items/'')"
  shows "(handler jp s req = (json_response 400 (error_json ''Invalid item ID''), s)
            \<longleftrightarrow> no_number (id_segment p)) \<and>
         (handler_sql jp d req = (json_response 400 (error_json ''Invalid item ID''), d)
            \<longleftrightarrow> no_number (id_segment p))"
proof (cases "no_number (id_segment p)")
  case True
  then have "path_id p = None"
    by (simp add: path_id_segment[OF assms(3)] parseInt_None_iff)
  then show ?thesis using invalid_id[OF assms] True by simp
next
  case False
  then obtain i where i: "path_id p = Some i"
    using parseInt_None_iff[of "id_segment p"] by (auto simp: path_id_segment[OF assms(3)])
  have "fst (handler jp s req) \<noteq> json_response 400 (error_json ''Invalid item ID'')"
    and "fst (handler_sql jp d req) \<noteq> json_response 400 (error_json ''Invalid item ID'')"
    using parsed_id_not_invalid[OF assms i] by simp_all
  then show ?thesis using False by auto
qed

theorem invalid_id_rejected_witness:
  "no_number (id_segment (u ''/items/abc'')) \<and> no_number (id_segment (u ''/items/'')) \<and>
   no_number (id_segment (u ''/items/0x'')) \<and> no_number (id_segment (u ''/items/-'')) \<and>
   \<not> no_number (id_segment (u ''/items/12abc'')) \<and>
   handler (map_of [])
       \<lparr>items = [\<lparr>item_id = 1, name = u ''n'', description = u ''d''\<rparr>], nextId = 2\<rparr>
       \<lparr>method = u ''PUT'', path = Some (u ''/items/0x''), body = []\<rparr>
     = (json_response 400 (error_json ''Invalid item ID''),
        \<lparr>items = [\<lparr>item_id = 1, name = u ''n'', description = u ''d''\<rparr>], nextId = 2\<rparr>) \<and>
   handler_sql (map_of []) (init_db\<lparr>failing := True\<rparr>)
       \<lparr>method = u ''PUT'', path = Some (u ''/items/0x''), body = []\<rparr>
     = (json_response 400 (error_json ''Invalid item ID''), init_db\<lparr>failing := True\<rparr>)"
proof -
  let ?req = "\<lparr>method = u ''PUT'', path = Some (u ''/items/0x''), body = []\<rparr>"
  have h1: "method ?req = u ''GET'' \<or> method ?req = u ''PUT'' \<or> method ?req = u ''DELETE''"
    by simp
  have h2: "path ?req = Some (u ''/items/0x'')" by simp
  have h3: "startsWith (u ''/items/0x'') (u ''/items/'')" by code_simp
  have n: "no_number (id_segment (u ''/items/abc''))" "no_number (id_segment (u ''/items/''))"
    "no_number (id_segment (u ''/items/0x''))" "no_number (id_segment (u ''/items/-''))"
    "\<not> no_number (id_segment (u ''/items/12abc''))"
    by code_simp+
  show ?thesis
    using invalid_id_rejected[where req = ?req and jp = "map_of []", OF h1 h2 h3] n
    by simp
qed

end
